theory Spec2Isabelle
  imports Complex_Main "HOL-Library.Word" "HOL-Library.Multiset" "HOL-Library.Sublist"
    "HOL-Library.Product_Lexorder"
begin

section \<open>JavaScript strings and values\<close>

text \<open>
  A JavaScript string is a sequence of UTF-16 code units. The case conversions of the
  language follow the Unicode tables. For a string of Basic Latin and Latin-1 code units
  (below \<open>0x100\<close>) the conversion is written out here: lower-casing maps unit to unit,
  upper-casing expands U+00DF to two units and sends U+00B5 and U+00FF outside Latin-1.
  The conversion of every other string is the parameter \<open>ext\<close> (the rest of the Unicode
  tables).
\<close>

type_synonym jsstring = "16 word list"

definition js :: "string \<Rightarrow> jsstring" where
  "js s = map of_char s"

definition latin1 :: "16 word \<Rightarrow> bool" where
  "latin1 u = (u < 0x100)"

definition lower_unit :: "16 word \<Rightarrow> 16 word" where
  "lower_unit u =
     (if (0x41 \<le> u \<and> u \<le> 0x5A) \<or> (0xC0 \<le> u \<and> u \<le> 0xDE \<and> u \<noteq> 0xD7)
      then u + 0x20 else u)"

definition upper_unit :: "16 word \<Rightarrow> jsstring" where
  "upper_unit u =
     (if (0x61 \<le> u \<and> u \<le> 0x7A) \<or> (0xE0 \<le> u \<and> u \<le> 0xFE \<and> u \<noteq> 0xF7)
      then [u - 0x20]
      else if u = 0xDF then [0x53, 0x53]
      else if u = 0xB5 then [0x39C]
      else if u = 0xFF then [0x178]
      else [u])"

definition toLowerCase :: "(jsstring \<Rightarrow> jsstring) \<Rightarrow> jsstring \<Rightarrow> jsstring" where
  "toLowerCase ext s = (if list_all latin1 s then map lower_unit s else ext s)"

definition toUpperCase :: "(jsstring \<Rightarrow> jsstring) \<Rightarrow> jsstring \<Rightarrow> jsstring" where
  "toUpperCase ext s = (if list_all latin1 s then concat (map upper_unit s) else ext s)"

text \<open>\<open>s.startsWith(p)\<close>, \<open>s.slice(n)\<close> for \<open>0 \<le> n\<close>, and \<open>s.charAt(0)\<close>.\<close>

definition startsWith :: "jsstring \<Rightarrow> jsstring \<Rightarrow> bool" where
  "startsWith s p = (take (length p) s = p)"

definition slice_from :: "nat \<Rightarrow> jsstring \<Rightarrow> jsstring" where
  "slice_from n s = drop n s"

definition charAt0 :: "jsstring \<Rightarrow> jsstring" where
  "charAt0 s = take 1 s"

text \<open>
  Values: the primitives, arrays, and objects. An object carries whether it is an
  \<open>instanceof Error\<close> and the properties visible on it (own or inherited). A property holds
  a value, or is an accessor that throws when it is read (\<open>None\<close>). A function is an
  object here; a number is an integer or NaN, which is all that truthiness asks of it.
\<close>

datatype jsval =
    JUndefined
  | JNull
  | JBool bool
  | JNum int
  | JNaN
  | JStr jsstring
  | JArr "jsval list"
  | JObj bool "(string \<times> jsval option) list"

datatype js_error = TypeError | Thrown

fun truthy :: "jsval \<Rightarrow> bool" where
  "truthy JUndefined = False"
| "truthy JNull = False"
| "truthy (JBool b) = b"
| "truthy (JNum n) = (n \<noteq> 0)"
| "truthy JNaN = False"
| "truthy (JStr s) = (s \<noteq> [])"
| "truthy (JArr xs) = True"
| "truthy (JObj e ps) = True"

fun nullish :: "jsval \<Rightarrow> bool" where
  "nullish JUndefined = True"
| "nullish JNull = True"
| "nullish v = False"

text \<open>
  Reading property \<open>k\<close> of a value that is neither null nor undefined: the value it holds,
  undefined when it is absent, or the exception of its accessor. A primitive or an array
  has the constructor of its wrapper, whose \<open>name\<close> is fixed by the language.
\<close>

definition builtin_ctor :: "string \<Rightarrow> jsval" where
  "builtin_ctor n = JObj False [(''name'', Some (JStr (js n)))]"

fun get_prop :: "jsval \<Rightarrow> string \<Rightarrow> js_error + jsval" where
  "get_prop (JObj e ps) k =
     (case map_of ps k of
        None \<Rightarrow> Inr JUndefined
      | Some None \<Rightarrow> Inl Thrown
      | Some (Some v) \<Rightarrow> Inr v)"
| "get_prop (JStr s) k =
     Inr (if k = ''constructor'' then builtin_ctor ''String'' else JUndefined)"
| "get_prop (JNum n) k =
     Inr (if k = ''constructor'' then builtin_ctor ''Number'' else JUndefined)"
| "get_prop JNaN k =
     Inr (if k = ''constructor'' then builtin_ctor ''Number'' else JUndefined)"
| "get_prop (JBool b) k =
     Inr (if k = ''constructor'' then builtin_ctor ''Boolean'' else JUndefined)"
| "get_prop (JArr xs) k =
     Inr (if k = ''constructor'' then builtin_ctor ''Array'' else JUndefined)"
| "get_prop v k = Inr JUndefined"

text \<open>\<open>v.k\<close> throws on null and undefined; \<open>v?.k\<close> is undefined there.\<close>

definition dot :: "jsval \<Rightarrow> string \<Rightarrow> js_error + jsval" where
  "dot v k = (if nullish v then Inl TypeError else get_prop v k)"


text \<open>Sequencing: an exception ends the evaluation.\<close>

definition bind_js :: "js_error + 'a \<Rightarrow> ('a \<Rightarrow> js_error + 'b) \<Rightarrow> js_error + 'b" where
  "bind_js m f = (case m of Inl x \<Rightarrow> Inl x | Inr v \<Rightarrow> f v)"





section \<open>frontend/src/utils.ts\<close>

subsection \<open>getErrorMessages\<close>







subsection \<open>getInitials\<close>

text \<open>
  \<open>name.split(" ")\<close> cuts at every space and keeps empty pieces; \<open>word[0]\<close> of an empty
  piece is undefined, which \<open>join("")\<close> writes as the empty string.
\<close>

fun split_on :: "16 word \<Rightarrow> jsstring \<Rightarrow> jsstring list" where
  "split_on sep [] = [[]]"
| "split_on sep (c # cs) =
     (if c = sep then [] # split_on sep cs
      else (case split_on sep cs of w # ws \<Rightarrow> (c # w) # ws | [] \<Rightarrow> [[c]]))"

definition index0 :: "jsstring \<Rightarrow> jsstring option" where
  "index0 w = (case w of [] \<Rightarrow> None | c # cs \<Rightarrow> Some [c])"

definition join_empty :: "jsstring option list \<Rightarrow> jsstring" where
  "join_empty ws = concat (map (\<lambda>w. case w of None \<Rightarrow> [] | Some s \<Rightarrow> s) ws)"

definition getInitials :: "(jsstring \<Rightarrow> jsstring) \<Rightarrow> jsstring \<Rightarrow> jsstring" where
  "getInitials ext name =
     toUpperCase ext (join_empty (map index0 (take 2 (split_on 0x20 name))))"

section \<open>The SDK method name generator (openapi-ts configuration)\<close>

text \<open>
  The operation is an object; \<open>name\<close> and \<open>service\<close> are read from it as they are, of any
  type. The guard \<open>!name || typeof name !== "string"\<close> is the case distinction on the name:
  a value that is not a string, or a string that is falsy (the empty one), returns
  \<open>"operation"\<close>. The service is not tested for its type: \<open>service.toLowerCase()\<close> is
  called on any truthy service. A number or a boolean has no such method, and the call
  throws a TypeError. What an object answers (a String object, an object with a
  \<open>toLowerCase\<close> and a \<open>length\<close> of its own) depends on methods the objects of this model do
  not hold: the result of the function for a truthy service that is an object or an array
  is the parameter \<open>on_object\<close>, given the service and the name.
\<close>

definition lower_first :: "(jsstring \<Rightarrow> jsstring) \<Rightarrow> jsstring \<Rightarrow> jsstring" where
  "lower_first ext n = toLowerCase ext (charAt0 n) @ slice_from 1 n"

definition methodName ::
  "(jsstring \<Rightarrow> jsstring) \<Rightarrow> (jsval \<Rightarrow> jsstring \<Rightarrow> js_error + jsstring) \<Rightarrow> jsval
     \<Rightarrow> js_error + jsstring" where
  "methodName ext on_object operation =
     bind_js (dot operation ''name'') (\<lambda>name.
       bind_js (dot operation ''service'') (\<lambda>service.
         (case name of
            JStr n \<Rightarrow>
              if \<not> truthy name then Inr (js ''operation'')
              else if truthy service then
                (case service of
                   JStr s \<Rightarrow>
                     Inr (lower_first ext
                            (if startsWith (toLowerCase ext n) (toLowerCase ext s)
                             then slice_from (length s) n else n))
                 | JObj e ps \<Rightarrow> on_object service n
                 | JArr xs \<Rightarrow> on_object service n
                 | other \<Rightarrow> Inl TypeError)
              else Inr (lower_first ext n)
          | other \<Rightarrow> Inr (js ''operation''))))"

section \<open>The audit rule engine: course sets and credit ceilings\<close>

text \<open>
  The source of the rule engine (lexer, parser, linker, evaluator, report builder) is not
  part of the sources this development is written from: those are the web frontend, the
  start scripts and the SDK configuration. Two steps of the evaluator that the
  specification gives as procedures, the allocation of a \<open>CourseSet\<close> leaf and the capping
  step of a \<open>Maximum\<close> node, are modelled here from its words.
\<close>

subsection \<open>Courses\<close>

text \<open>
  Modelled from the spec: the \<open>Course\<close> record of the rule model (subject code, course
  number, credit value, grade, term identifier, repeat flag). A term is a year and a
  session, sorted by year and then by session in calendar order; the letter grades are
  ordered \<open>F < D < C < B < A\<close>, the markers are not.
\<close>

datatype grade = GradeF | GradeD | GradeC | GradeB | GradeA | Pass | Fail | Transfer | InProgress

datatype session = Winter | Summer | Fall

record course =
  subject :: string
  number :: nat
  credits :: rat
  grade :: grade
  term_id :: "nat \<times> session"
  repeated :: bool

fun session_rank :: "session \<Rightarrow> nat" where
  "session_rank Winter = 0"
| "session_rank Summer = 1"
| "session_rank Fall = 2"

fun letter_rank :: "grade \<Rightarrow> nat option" where
  "letter_rank GradeF = Some 0"
| "letter_rank GradeD = Some 1"
| "letter_rank GradeC = Some 2"
| "letter_rank GradeB = Some 3"
| "letter_rank GradeA = Some 4"
| "letter_rank g = None"

definition credits_total :: "course list \<Rightarrow> rat" where
  "credits_total cs = sum_list (map credits cs)"

subsection \<open>Patterns\<close>

text \<open>
  Modelled from the spec: the matcher of a \<open>CourseSet\<close> pattern, a subject pattern in
  which \<open>*\<close> stands for any run of characters and an optional inclusive number range
  (\<open>MATH 100-199\<close>, \<open>ENG*\<close>).
\<close>

type_synonym pattern = "string \<times> (nat \<times> nat) option"

fun glob :: "string \<Rightarrow> string \<Rightarrow> bool" where
  "glob [] [] = True"
| "glob [] (c # cs) = False"
| "glob (p # ps) [] = (p = CHR ''*'' \<and> glob ps [])"
| "glob (p # ps) (c # cs) =
     (if p = CHR ''*'' then glob ps (c # cs) \<or> glob (p # ps) cs
      else p = c \<and> glob ps cs)"

definition matches :: "pattern \<Rightarrow> course \<Rightarrow> bool" where
  "matches p c =
     (glob (fst p) (subject c)
      \<and> (case snd p of None \<Rightarrow> True | Some (lo, hi) \<Rightarrow> lo \<le> number c \<and> number c \<le> hi))"

text \<open>
  Modelled from the spec: the grade floor of a \<open>CourseSet\<close>. Between letter grades it is
  the order of the enum; whether a marker reaches a floor is not said, and is the
  parameter \<open>mk\<close>.
\<close>

definition reaches_floor :: "(grade \<Rightarrow> grade \<Rightarrow> bool) \<Rightarrow> grade option \<Rightarrow> grade \<Rightarrow> bool" where
  "reaches_floor mk fl g =
     (case fl of
        None \<Rightarrow> True
      | Some f \<Rightarrow>
          (case (letter_rank g, letter_rank f) of
             (Some a, Some b) \<Rightarrow> b \<le> a
           | other \<Rightarrow> mk g f))"

subsection \<open>Verdicts\<close>

text \<open>
  Modelled from the spec: the per-node verdict tree of an \<open>AuditResult\<close>. A node holds
  its satisfied flag; a leaf holds the courses applied to it, in the order they were
  selected, and the two minimums of its rule; a group holds its mode; a conditional
  holds the verdict of the branch that was evaluated; a block reference holds its share
  policy and the verdict of the referenced block.
\<close>

datatype mode = ALL_OF | ANY_OF | N_OF nat

datatype share_policy = EXCLUSIVE | SHARED

datatype ceiling = MaxCount nat | MaxCredits rat

datatype verdict =
    VCourseSet bool "course list" nat rat
  | VGroup bool mode "verdict list"
  | VMaximum bool verdict
  | VConditional bool verdict
  | VBlockReference bool share_policy verdict

fun satisfied :: "verdict \<Rightarrow> bool" where
  "satisfied (VCourseSet s ap mc mcr) = s"
| "satisfied (VGroup s m vs) = s"
| "satisfied (VMaximum s v) = s"
| "satisfied (VConditional s v) = s"
| "satisfied (VBlockReference s pol v) = s"

subsection \<open>CourseSet allocation\<close>

text \<open>
  Modelled from the spec: the evaluation of a \<open>CourseSet\<close> leaf (4.3). The unconsumed
  pool is filtered by pattern match and grade floor; the candidates are ordered by term
  ascending, then credit value descending (a stable sort: equal keys keep the order of
  the pool); courses are consumed in that order until both minimums are met or the
  candidates are exhausted; the node is satisfied iff both minimums are reached.
\<close>

record course_set =
  patterns :: "pattern list"
  min_count :: nat
  min_credits :: rat
  grade_floor :: "grade option"

definition candidates :: "(grade \<Rightarrow> grade \<Rightarrow> bool) \<Rightarrow> course_set \<Rightarrow> course list \<Rightarrow> course list" where
  "candidates mk cs pool =
     filter (\<lambda>c. list_ex (\<lambda>p. matches p c) (patterns cs)
                 \<and> reaches_floor mk (grade_floor cs) (grade c)) pool"

definition earlier :: "nat \<times> session \<Rightarrow> nat \<times> session \<Rightarrow> bool" where
  "earlier s t =
     (fst s < fst t \<or> (fst s = fst t \<and> session_rank (snd s) < session_rank (snd t)))"

definition selection_key :: "course \<Rightarrow> (nat \<times> nat) \<times> rat" where
  "selection_key c = ((fst (term_id c), session_rank (snd (term_id c))), - credits c)"

definition ordered :: "course list \<Rightarrow> course list" where
  "ordered cs = sort_key selection_key cs"

definition met :: "nat \<Rightarrow> rat \<Rightarrow> course list \<Rightarrow> bool" where
  "met mc mcr cs = (mc \<le> length cs \<and> mcr \<le> credits_total cs)"

fun consume_greedy :: "nat \<Rightarrow> rat \<Rightarrow> course list \<Rightarrow> course list \<Rightarrow> course list" where
  "consume_greedy mc mcr acc [] = acc"
| "consume_greedy mc mcr acc (c # cs) =
     (if met mc mcr acc then acc else consume_greedy mc mcr (acc @ [c]) cs)"

definition remove_courses :: "course list \<Rightarrow> course list \<Rightarrow> course list" where
  "remove_courses chosen pool = fold remove1 chosen pool"

definition evaluate_course_set ::
  "(grade \<Rightarrow> grade \<Rightarrow> bool) \<Rightarrow> course_set \<Rightarrow> course list \<Rightarrow> verdict \<times> course list" where
  "evaluate_course_set mk cs pool =
     (let chosen = consume_greedy (min_count cs) (min_credits cs) []
                     (ordered (candidates mk cs pool))
      in (VCourseSet (met (min_count cs) (min_credits cs) chosen) chosen
            (min_count cs) (min_credits cs),
          remove_courses chosen pool))"

subsection \<open>The capping step of Maximum\<close>

text \<open>
  Modelled from the spec: the courses a verdict tree holds consumed, in selection order
  (children in declared order). The courses under a \<open>SHARED\<close> block reference are not
  marked consumed in the referencing run.
\<close>

fun consumed :: "verdict \<Rightarrow> course list" where
  "consumed (VCourseSet s ap mc mcr) = ap"
| "consumed (VGroup s m vs) = concat (map consumed vs)"
| "consumed (VMaximum s v) = consumed v"
| "consumed (VConditional s v) = consumed v"
| "consumed (VBlockReference s pol v) = (case pol of EXCLUSIVE \<Rightarrow> consumed v | SHARED \<Rightarrow> [])"

text \<open>
  Modelled from the spec: releasing the most recently consumed course of a verdict tree
  (\<open>None\<close> when it holds none).
\<close>

fun pop_last :: "verdict \<Rightarrow> (course \<times> verdict) option"
  and pop_last_list :: "verdict list \<Rightarrow> (course \<times> verdict list) option" where
  "pop_last (VCourseSet s ap mc mcr) =
     (if ap = [] then None else Some (last ap, VCourseSet s (butlast ap) mc mcr))"
| "pop_last (VGroup s m vs) =
     (case pop_last_list vs of None \<Rightarrow> None | Some (c, vs') \<Rightarrow> Some (c, VGroup s m vs'))"
| "pop_last (VMaximum s v) =
     (case pop_last v of None \<Rightarrow> None | Some (c, v') \<Rightarrow> Some (c, VMaximum s v'))"
| "pop_last (VConditional s v) =
     (case pop_last v of None \<Rightarrow> None | Some (c, v') \<Rightarrow> Some (c, VConditional s v'))"
| "pop_last (VBlockReference s pol v) =
     (case pol of
        SHARED \<Rightarrow> None
      | EXCLUSIVE \<Rightarrow>
          (case pop_last v of None \<Rightarrow> None | Some (c, v') \<Rightarrow> Some (c, VBlockReference s pol v')))"
| "pop_last_list [] = None"
| "pop_last_list (v # vs) =
     (case pop_last_list vs of
        Some (c, vs') \<Rightarrow> Some (c, v # vs')
      | None \<Rightarrow> (case pop_last v of None \<Rightarrow> None | Some (c, v') \<Rightarrow> Some (c, v' # vs)))"

text \<open>
  Modelled from the spec: the satisfied flags of a verdict tree, recomputed from the
  allocation it holds (a leaf: both minimums reached; \<open>ALL\<close>, here \<open>ALL_OF\<close>: every child;
  \<open>ANY\<close>, here \<open>ANY_OF\<close>: at least one; \<open>N_OF k\<close>: at least \<open>k\<close>; the other nodes:
  their child).
\<close>

fun group_satisfied :: "mode \<Rightarrow> bool list \<Rightarrow> bool" where
  "group_satisfied ALL_OF bs = list_all (\<lambda>b. b) bs"
| "group_satisfied ANY_OF bs = list_ex (\<lambda>b. b) bs"
| "group_satisfied (N_OF k) bs = (k \<le> length (filter (\<lambda>b. b) bs))"

fun recompute :: "verdict \<Rightarrow> verdict" where
  "recompute (VCourseSet s ap mc mcr) = VCourseSet (met mc mcr ap) ap mc mcr"
| "recompute (VGroup s m vs) =
     VGroup (group_satisfied m (map (\<lambda>v. satisfied (recompute v)) vs)) m (map recompute vs)"
| "recompute (VMaximum s v) = VMaximum (satisfied (recompute v)) (recompute v)"
| "recompute (VConditional s v) = VConditional (satisfied (recompute v)) (recompute v)"
| "recompute (VBlockReference s pol v) =
     VBlockReference (satisfied (recompute v)) pol (recompute v)"

fun coherent :: "verdict \<Rightarrow> bool" where
  "coherent (VCourseSet s ap mc mcr) = (s = met mc mcr ap)"
| "coherent (VGroup s m vs) =
     (s = group_satisfied m (map satisfied vs) \<and> list_all coherent vs)"
| "coherent (VMaximum s v) = (s = satisfied v \<and> coherent v)"
| "coherent (VConditional s v) = (s = satisfied v \<and> coherent v)"
| "coherent (VBlockReference s pol v) = (s = satisfied v \<and> coherent v)"

text \<open>
  Modelled from the spec: the capping step of \<open>Maximum\<close> (4.3), run on the verdict of the
  fully evaluated child and the pool that evaluation left. While the consumed count or
  credits exceed the ceiling, the most recently consumed course is released back to the
  pool; then the satisfied flags of the child are recomputed. The loop runs at most once
  per consumed course.
\<close>

fun exceeds :: "ceiling \<Rightarrow> course list \<Rightarrow> bool" where
  "exceeds (MaxCount n) cs = (n < length cs)"
| "exceeds (MaxCredits m) cs = (m < credits_total cs)"

fun release_excess :: "nat \<Rightarrow> ceiling \<Rightarrow> verdict \<Rightarrow> course list \<Rightarrow> verdict \<times> course list" where
  "release_excess 0 ceil v pool = (v, pool)"
| "release_excess (Suc n) ceil v pool =
     (if exceeds ceil (consumed v)
      then (case pop_last v of
              None \<Rightarrow> (v, pool)
            | Some (c, v') \<Rightarrow> release_excess n ceil v' (pool @ [c]))
      else (v, pool))"

definition cap_maximum :: "ceiling \<Rightarrow> verdict \<Rightarrow> course list \<Rightarrow> verdict \<times> course list" where
  "cap_maximum ceil v pool =
     (case release_excess (length (consumed v)) ceil v pool of
        (v', pool') \<Rightarrow> (VMaximum (satisfied (recompute v')) (recompute v'), pool'))"

section \<open>Properties\<close>

subsection \<open>getErrorMessages returns an array\<close>




lemma truthy_not_nullish: "truthy v \<Longrightarrow> \<not> nullish v"
  by (cases v) auto












subsection \<open>getInitials\<close>

lemma split_on_nonempty: "split_on sep s \<noteq> []"
  by (induction s) (auto split: list.splits)

lemma split_on_unfold:
  "split_on sep s =
     takeWhile (\<lambda>c. c \<noteq> sep) s #
       (if sep \<in> set s then split_on sep (tl (dropWhile (\<lambda>c. c \<noteq> sep) s)) else [])"
proof (induction s)
  case Nil
  then show ?case by simp
next
  case (Cons c cs)
  then show ?case
    using split_on_nonempty [of sep cs] by (auto split: list.splits)
qed

lemma index0_take1: "(case index0 w of None \<Rightarrow> [] | Some s \<Rightarrow> s) = take 1 w"
  by (cases w) (auto simp: index0_def)

lemma take2_split_on:
  "take 2 (split_on sep s) =
     takeWhile (\<lambda>c. c \<noteq> sep) s #
       (if sep \<in> set s then [takeWhile (\<lambda>c. c \<noteq> sep) (tl (dropWhile (\<lambda>c. c \<noteq> sep) s))] else [])"
proof -
  have "take 1 (split_on sep t) = [takeWhile (\<lambda>c. c \<noteq> sep) t]" for t
    by (subst split_on_unfold) simp
  then show ?thesis
    by (subst split_on_unfold) (simp add: numeral_2_eq_2)
qed

lemma initials_raw:
  "join_empty (map index0 (take 2 (split_on sep s))) =
     take 1 (takeWhile (\<lambda>c. c \<noteq> sep) s) @
       (if sep \<in> set s
        then take 1 (takeWhile (\<lambda>c. c \<noteq> sep) (tl (dropWhile (\<lambda>c. c \<noteq> sep) s))) else [])"
  by (simp add: take2_split_on join_empty_def index0_take1)

lemma length_upper_unit: "u \<noteq> 0xDF \<Longrightarrow> length (upper_unit u) = 1"
  by (simp add: upper_unit_def)

lemma length_toUpperCase_latin1:
  "list_all latin1 s \<Longrightarrow> 0xDF \<notin> set s \<Longrightarrow> length (toUpperCase ext s) = length s"
  by (induction s) (auto simp: toUpperCase_def length_upper_unit)

text \<open>
  C10, as amended. \<open>getInitials\<close> returns the upper-casing of the first code units of the
  first two space-separated pieces of its input (an empty piece gives nothing). Before
  upper-casing that string has at most two code units, and the empty input gives the empty
  string. The result itself has at most two code units when the input has no code unit
  above U+00FF and no U+00DF; upper-casing can make it longer otherwise.
\<close>

theorem getInitials_two_initials:
  "getInitials ext name =
     toUpperCase ext
       (take 1 (takeWhile (\<lambda>c. c \<noteq> 0x20) name) @
        (if 0x20 \<in> set name
         then take 1 (takeWhile (\<lambda>c. c \<noteq> 0x20) (tl (dropWhile (\<lambda>c. c \<noteq> 0x20) name)))
         else []))
   \<and> length (join_empty (map index0 (take 2 (split_on 0x20 name)))) \<le> 2
   \<and> getInitials ext [] = []
   \<and> (list_all latin1 name \<and> 0xDF \<notin> set name \<longrightarrow> length (getInitials ext name) \<le> 2)"
proof -
  let ?raw = "join_empty (map index0 (take 2 (split_on 0x20 name)))"
  have raw: "?raw = take 1 (takeWhile (\<lambda>c. c \<noteq> 0x20) name) @
        (if 0x20 \<in> set name
         then take 1 (takeWhile (\<lambda>c. c \<noteq> 0x20) (tl (dropWhile (\<lambda>c. c \<noteq> 0x20) name)))
         else [])"
    by (rule initials_raw)
  have len: "length ?raw \<le> 2"
    unfolding raw by (auto simp: min_def)
  have sub: "set ?raw \<subseteq> set name"
  proof -
    have a: "set (take 1 (takeWhile (\<lambda>c. c \<noteq> 0x20) t)) \<subseteq> set t" for t :: jsstring
      by (auto dest!: in_set_takeD set_takeWhileD)
    have b: "set (tl (dropWhile (\<lambda>c. c \<noteq> 0x20) name)) \<subseteq> set name"
      by (metis list.set_sel(2) set_dropWhileD subsetI tl_Nil)
    show ?thesis unfolding raw
      using a [of name] a [of "tl (dropWhile (\<lambda>c. c \<noteq> 0x20) name)"] b by auto
  qed
  have "length (getInitials ext name) \<le> 2" if "list_all latin1 name" "0xDF \<notin> set name"
  proof -
    have "list_all latin1 ?raw" "0xDF \<notin> set ?raw"
      using that sub by (auto simp: list_all_iff)
    then have "length (toUpperCase ext ?raw) = length ?raw"
      by (rule length_toUpperCase_latin1)
    then show ?thesis using len by (simp add: getInitials_def)
  qed
  moreover have "getInitials ext [] = []"
    by (simp add: getInitials_def toUpperCase_def join_empty_def index0_def)
  ultimately show ?thesis
    using raw len by (simp add: getInitials_def)
qed

theorem getInitials_two_initials_witness:
  "getInitials (\<lambda>s. s) (js ''ada lovelace king'') = js ''AL''
   \<and> list_all latin1 (js ''ada lovelace king'') \<and> 0xDF \<notin> set (js ''ada lovelace king'')
   \<and> length (getInitials (\<lambda>s. s) (js ''ada lovelace king'')) \<le> 2"
  using getInitials_two_initials [of "\<lambda>s. s" "js ''ada lovelace king''"]
  by (simp add: js_def toUpperCase_def upper_unit_def latin1_def)

text \<open>
  The result is longer than two for the input \<open>"\<ss> \<ss>"\<close> (U+00DF, space, U+00DF): each
  initial upper-cases to \<open>"SS"\<close>.
\<close>

theorem getInitials_longer_than_two:
  "\<not> length (getInitials (\<lambda>s. s) [0xDF, 0x20, 0xDF]) \<le> 2"
  by (simp add: getInitials_def toUpperCase_def upper_unit_def latin1_def join_empty_def index0_def)

subsection \<open>methodName\<close>

lemma toLowerCase_latin1: "list_all latin1 s \<Longrightarrow> toLowerCase ext s = map lower_unit s"
  by (simp add: toLowerCase_def)

lemma startsWith_lower_iff:
  assumes "list_all latin1 n" "list_all latin1 s"
  shows "startsWith (toLowerCase ext n) (toLowerCase ext s)
           \<longleftrightarrow> (\<exists>p r. n = p @ r \<and> toLowerCase ext p = toLowerCase ext s)"
proof
  assume sw: "startsWith (toLowerCase ext n) (toLowerCase ext s)"
  have "n = take (length s) n @ drop (length s) n" by simp
  moreover have "list_all latin1 (take (length s) n)"
    using assms(1) by (auto simp: list_all_iff dest: in_set_takeD)
  then have "toLowerCase ext (take (length s) n) = toLowerCase ext s"
    using sw assms by (simp add: startsWith_def toLowerCase_latin1 take_map)
  ultimately show "\<exists>p r. n = p @ r \<and> toLowerCase ext p = toLowerCase ext s" by blast
next
  assume "\<exists>p r. n = p @ r \<and> toLowerCase ext p = toLowerCase ext s"
  then obtain p r where n: "n = p @ r" and eq: "toLowerCase ext p = toLowerCase ext s" by blast
  have lp: "list_all latin1 p" using assms(1) n by simp
  have "map lower_unit p = map lower_unit s"
    using eq lp assms(2) by (simp add: toLowerCase_latin1)
  moreover from this have "length p = length s" by (rule map_eq_imp_length_eq)
  ultimately show "startsWith (toLowerCase ext n) (toLowerCase ext s)"
    using assms n by (simp add: startsWith_def toLowerCase_latin1)
qed

text \<open>
  C9, as amended. For an operation object whose \<open>name\<close> and \<open>service\<close> are read without
  throwing: if the \<open>name\<close> is missing, is not a string, or is the empty string, the result
  is \<open>"operation"\<close>. For a non-empty string \<open>name\<close>: if \<open>service\<close> is missing or otherwise
  falsy the result is the name with its first character lower-cased; if \<open>service\<close> is a
  non-empty string, the result is the name, without its first \<open>service.length\<close> code units
  when the lower-cased name starts with the lower-cased service, with the first character
  lower-cased. For a name and a service of code units up to U+00FF that is: the name with
  the service removed from its front when the name starts with it case-insensitively, and
  the name itself otherwise, with the first character lower-cased. Nothing is said of a
  truthy service that is not a string.
\<close>

theorem methodName_result:
  "(\<forall>nm sv. get_prop (JObj e ps) ''name'' = Inr nm \<and> get_prop (JObj e ps) ''service'' = Inr sv
        \<and> (nm = JStr [] \<or> (\<forall>n. nm \<noteq> JStr n))
      \<longrightarrow> methodName ext on_object (JObj e ps) = Inr (js ''operation''))
   \<and> (\<forall>n sv. get_prop (JObj e ps) ''name'' = Inr (JStr n) \<and> n \<noteq> []
          \<and> get_prop (JObj e ps) ''service'' = Inr sv \<longrightarrow>
        (\<not> truthy sv \<longrightarrow> methodName ext on_object (JObj e ps) = Inr (lower_first ext n))
        \<and> (\<forall>s. sv = JStr s \<and> s \<noteq> [] \<longrightarrow>
               methodName ext on_object (JObj e ps) =
                 Inr (lower_first ext
                       (if startsWith (toLowerCase ext n) (toLowerCase ext s)
                        then slice_from (length s) n else n)))
        \<and> (\<forall>s. sv = JStr s \<and> s \<noteq> [] \<and> list_all latin1 n \<and> list_all latin1 s \<longrightarrow>
               (\<forall>p r. n = p @ r \<and> toLowerCase ext p = toLowerCase ext s
                  \<longrightarrow> methodName ext on_object (JObj e ps) = Inr (lower_first ext r))
               \<and> ((\<nexists>p r. n = p @ r \<and> toLowerCase ext p = toLowerCase ext s)
                  \<longrightarrow> methodName ext on_object (JObj e ps) = Inr (lower_first ext n))))"
proof -
  let ?op = "JObj e ps"
  have d: "dot ?op k = get_prop ?op k" for k by (simp add: dot_def)
  have A: "methodName ext on_object ?op = Inr (js ''operation'')"
    if "get_prop ?op ''name'' = Inr nm" "get_prop ?op ''service'' = Inr sv"
       "nm = JStr [] \<or> (\<forall>n. nm \<noteq> JStr n)" for nm sv
    using that unfolding methodName_def d by (auto simp: bind_js_def split: jsval.splits)
  have B: "methodName ext on_object ?op = Inr (lower_first ext n)"
    if "get_prop ?op ''name'' = Inr (JStr n)" "n \<noteq> []" "get_prop ?op ''service'' = Inr sv"
       "\<not> truthy sv" for n sv
    using that unfolding methodName_def d by (simp add: bind_js_def)
  have D: "methodName ext on_object ?op =
             Inr (lower_first ext
                   (if startsWith (toLowerCase ext n) (toLowerCase ext s)
                    then slice_from (length s) n else n))"
    if "get_prop ?op ''name'' = Inr (JStr n)" "n \<noteq> []" "get_prop ?op ''service'' = Inr sv"
       "sv = JStr s" "s \<noteq> []" for n sv s
    using that unfolding methodName_def d by (simp add: bind_js_def)
  have D1: "methodName ext on_object ?op = Inr (lower_first ext r)"
    if "get_prop ?op ''name'' = Inr (JStr n)" "n \<noteq> []" "get_prop ?op ''service'' = Inr sv"
       "sv = JStr s" "s \<noteq> []"
       "list_all latin1 n" "list_all latin1 s" "n = p @ r" "toLowerCase ext p = toLowerCase ext s"
    for n sv s p r
  proof -
    have sw: "startsWith (toLowerCase ext n) (toLowerCase ext s)"
      using that startsWith_lower_iff [of n s ext] by blast
    have "list_all latin1 p" using that by simp
    then have "map lower_unit p = map lower_unit s"
      using that by (simp add: toLowerCase_latin1)
    then have "length p = length s" by (rule map_eq_imp_length_eq)
    then have "slice_from (length s) n = r" using that by (simp add: slice_from_def)
    then show ?thesis using D [OF that(1-5)] sw by simp
  qed
  have D2: "methodName ext on_object ?op = Inr (lower_first ext n)"
    if "get_prop ?op ''name'' = Inr (JStr n)" "n \<noteq> []" "get_prop ?op ''service'' = Inr sv"
       "sv = JStr s" "s \<noteq> []"
       "list_all latin1 n" "list_all latin1 s"
       "\<nexists>p r. n = p @ r \<and> toLowerCase ext p = toLowerCase ext s"
    for n sv s
  proof -
    have "\<not> startsWith (toLowerCase ext n) (toLowerCase ext s)"
      using startsWith_lower_iff [OF that(6,7), of ext] that(8) by blast
    then show ?thesis using D [OF that(1-5)] by simp
  qed
  show ?thesis
    by (intro conjI allI impI; (elim conjE)?)
       (erule (2) A, erule (3) B, erule (4) D, erule (8) D1, erule (7) D2)
qed

theorem methodName_result_witness:
  "methodName (\<lambda>s. s) (\<lambda>v n. Inr n)
      (JObj False [(''name'', Some (JStr (js ''UsersGetUser''))), (''service'', Some (JStr (js ''users'')))])
     = Inr (js ''getUser'')
   \<and> methodName (\<lambda>s. s) (\<lambda>v n. Inr n)
      (JObj False [(''name'', Some (JStr (js ''UsersGetUser''))), (''service'', Some (JStr (js ''users'')))])
     = Inr (lower_first (\<lambda>s. s) (js ''GetUser''))"
proof -
  let ?ps = "[(''name'', Some (JStr (js ''UsersGetUser''))), (''service'', Some (JStr (js ''users'')))]"
  let ?op = "JObj False ?ps"
  have 1: "get_prop ?op ''name'' = Inr (JStr (js ''UsersGetUser'')) \<and> js ''UsersGetUser'' \<noteq> []
      \<and> get_prop ?op ''service'' = Inr (JStr (js ''users''))"
    by (simp add: js_def)
  have 2: "JStr (js ''users'') = JStr (js ''users'') \<and> js ''users'' \<noteq> []
      \<and> list_all latin1 (js ''UsersGetUser'') \<and> list_all latin1 (js ''users'')"
    by (simp add: js_def latin1_def)
  have 3: "js ''UsersGetUser'' = js ''Users'' @ js ''GetUser''
      \<and> toLowerCase (\<lambda>s. s) (js ''Users'') = toLowerCase (\<lambda>s. s) (js ''users'')"
    by (simp add: js_def toLowerCase_def latin1_def lower_unit_def)
  have "methodName (\<lambda>s. s) (\<lambda>v n. Inr n) ?op = Inr (lower_first (\<lambda>s. s) (js ''GetUser''))"
    using methodName_result [of False ?ps "\<lambda>s. s" "\<lambda>v n. Inr n"] 1 2 3 by blast
  moreover have "lower_first (\<lambda>s. s) (js ''GetUser'') = js ''getUser''"
    by (simp add: lower_first_def js_def toLowerCase_def latin1_def lower_unit_def charAt0_def slice_from_def)
  ultimately show ?thesis by simp
qed

text \<open>
  An operation whose name is the empty string gets \<open>"operation"\<close>, not the empty string;
  an operation whose service is the number 5 makes the call throw a TypeError; an
  operation whose name is an accessor that throws makes the call throw.
\<close>

theorem methodName_empty_name:
  "methodName (\<lambda>s. s) (\<lambda>v n. Inr n)
      (JObj False [(''name'', Some (JStr [])), (''service'', Some JUndefined)])
     = Inr (js ''operation'')
   \<and> Inr (js ''operation'') \<noteq> (Inr (lower_first (\<lambda>s. s) []) :: js_error + jsstring)
   \<and> methodName (\<lambda>s. s) (\<lambda>v n. Inr n)
      (JObj False [(''name'', Some (JStr (js ''getUser''))), (''service'', Some (JNum 5))])
     = Inl TypeError
   \<and> methodName (\<lambda>s. s) (\<lambda>v n. Inr n)
      (JObj False [(''name'', None), (''service'', Some (JStr (js ''users'')))])
     = Inl Thrown"
  by (simp add: methodName_def dot_def js_def lower_first_def toLowerCase_def charAt0_def
      slice_from_def bind_js_def)

subsection \<open>CourseSet allocation\<close>

lemma session_rank_inj: "session_rank a = session_rank b \<Longrightarrow> a = b"
  by (cases a; cases b) simp_all

lemma selection_key_le:
  "selection_key a \<le> selection_key b \<longleftrightarrow>
     earlier (term_id a) (term_id b) \<or> (term_id a = term_id b \<and> credits b \<le> credits a)"
  by (cases "term_id a"; cases "term_id b")
     (auto simp: selection_key_def earlier_def dest: session_rank_inj)

lemma ordered_sorted:
  "sorted_wrt (\<lambda>a b. earlier (term_id a) (term_id b) \<or> (term_id a = term_id b \<and> credits b \<le> credits a))
     (ordered cs)"
proof -
  have "sorted (map selection_key (ordered cs))"
    by (simp add: ordered_def)
  then have "sorted_wrt (\<lambda>a b. selection_key a \<le> selection_key b) (ordered cs)"
    by (simp add: sorted_map)
  then show ?thesis
    by (simp add: selection_key_le)
qed

lemma mset_ordered: "mset (ordered cs) = mset cs"
  by (simp add: ordered_def)

lemma consume_greedy_take:
  "\<exists>k\<le>length xs. consume_greedy mc mcr acc xs = acc @ take k xs
      \<and> (\<forall>j<k. \<not> met mc mcr (acc @ take j xs))
      \<and> (met mc mcr (acc @ take k xs) \<or> k = length xs)"
proof (induction xs arbitrary: acc)
  case Nil
  then show ?case by simp
next
  case (Cons c cs)
  show ?case
  proof (cases "met mc mcr acc")
    case True
    then show ?thesis by (intro exI [of _ 0]) simp
  next
    case False
    from Cons.IH [of "acc @ [c]"] obtain k where k: "k \<le> length cs"
      "consume_greedy mc mcr (acc @ [c]) cs = (acc @ [c]) @ take k cs"
      "\<forall>j<k. \<not> met mc mcr ((acc @ [c]) @ take j cs)"
      "met mc mcr ((acc @ [c]) @ take k cs) \<or> k = length cs"
      by blast
    have "\<forall>j<Suc k. \<not> met mc mcr (acc @ take j (c # cs))"
    proof (intro allI impI)
      fix j assume "j < Suc k"
      then show "\<not> met mc mcr (acc @ take j (c # cs))"
        using False k(3) by (cases j) auto
    qed
    then show ?thesis
      using False k by (intro exI [of _ "Suc k"]) auto
  qed
qed

lemma mset_fold_remove1: "mset (fold remove1 xs ys) = mset ys - mset xs"
proof (induction xs arbitrary: ys)
  case Nil
  then show ?case by simp
next
  case (Cons a xs)
  have "mset ys - {#a#} - mset xs = mset ys - add_mset a (mset xs)"
    by (metis add_mset_add_single diff_diff_add union_commute)
  then show ?case using Cons by simp
qed

lemma strict_prefix_take:
  "strict_prefix q (take k xs) \<Longrightarrow> \<exists>j<k. q = take j xs"
proof -
  assume a: "strict_prefix q (take k xs)"
  then have "length q < length (take k xs)"
    by (metis prefix_length_less)
  moreover from a have "q = take (length q) (take k xs)"
    by (metis append_eq_conv_conj strict_prefix_def prefix_def)
  ultimately show ?thesis
    by (intro exI [of _ "length q"]) (auto simp: min_def split: if_splits)
qed

lemma evaluate_course_set_chosen:
  obtains k where
    "k \<le> length (ordered (candidates mk cs pool))"
    "evaluate_course_set mk cs pool =
       (VCourseSet (met (min_count cs) (min_credits cs) (take k (ordered (candidates mk cs pool))))
          (take k (ordered (candidates mk cs pool))) (min_count cs) (min_credits cs),
        remove_courses (take k (ordered (candidates mk cs pool))) pool)"
    "\<forall>j<k. \<not> met (min_count cs) (min_credits cs) (take j (ordered (candidates mk cs pool)))"
    "met (min_count cs) (min_credits cs) (take k (ordered (candidates mk cs pool)))
       \<or> k = length (ordered (candidates mk cs pool))"
proof -
  from consume_greedy_take [of "ordered (candidates mk cs pool)" "min_count cs" "min_credits cs" "[]"]
  obtain k where "k \<le> length (ordered (candidates mk cs pool))"
    "consume_greedy (min_count cs) (min_credits cs) [] (ordered (candidates mk cs pool))
       = take k (ordered (candidates mk cs pool))"
    "\<forall>j<k. \<not> met (min_count cs) (min_credits cs) (take j (ordered (candidates mk cs pool)))"
    "met (min_count cs) (min_credits cs) (take k (ordered (candidates mk cs pool)))
       \<or> k = length (ordered (candidates mk cs pool))"
    by auto
  then show ?thesis
    using that [of k] by (simp add: evaluate_course_set_def Let_def)
qed

lemma mset_take_subseteq: "mset (take k xs) \<subseteq># mset xs"
  by (metis append_take_drop_id mset_append mset_subset_eq_add_left)

lemma remove_courses_mset:
  assumes "mset chosen \<subseteq># mset pool"
  shows "mset (remove_courses chosen pool) + mset chosen = mset pool"
  using assms by (simp add: remove_courses_def mset_fold_remove1)

lemma chosen_subseteq_pool: "mset (take k (ordered (candidates mk cs pool))) \<subseteq># mset pool"
proof -
  have "mset (take k (ordered (candidates mk cs pool))) \<subseteq># mset (ordered (candidates mk cs pool))"
    by (rule mset_take_subseteq)
  also have "\<dots> = mset (candidates mk cs pool)" by (rule mset_ordered)
  also have "\<dots> \<subseteq># mset pool" by (simp add: candidates_def)
  finally show ?thesis .
qed

text \<open>
  C7. The allocation of a \<open>CourseSet\<close> consumes a prefix of its candidates (the courses of
  the pool that match a pattern and reach the grade floor) ordered by term ascending, then
  credit value descending; the prefix is the shortest one that meets both \<open>min_count\<close> and
  \<open>min_credits\<close>, or all candidates when none does; the consumed courses leave the pool.
  For \<open>CourseSet(subject = "MATH", number = 100-199, min_count = 2)\<close> and the transcript
  MATH101/2020F, MATH201/2021W, MATH150/2021F (of any non-negative credit values) it
  consumes exactly MATH101 and MATH150, is satisfied, and leaves MATH201 unconsumed.
\<close>

theorem course_set_allocation:
  "(\<exists>chosen pool'.
      evaluate_course_set mk cs pool =
        (VCourseSet (met (min_count cs) (min_credits cs) chosen) chosen (min_count cs) (min_credits cs), pool')
      \<and> prefix chosen (ordered (candidates mk cs pool))
      \<and> mset (ordered (candidates mk cs pool)) = mset (candidates mk cs pool)
      \<and> sorted_wrt (\<lambda>a b. earlier (term_id a) (term_id b)
                          \<or> (term_id a = term_id b \<and> credits b \<le> credits a))
           (ordered (candidates mk cs pool))
      \<and> (\<forall>q. strict_prefix q chosen \<longrightarrow> \<not> met (min_count cs) (min_credits cs) q)
      \<and> (met (min_count cs) (min_credits cs) chosen \<or> chosen = ordered (candidates mk cs pool))
      \<and> mset pool' + mset chosen = mset pool)
   \<and> (0 \<le> c1 \<and> 0 \<le> c3 \<longrightarrow>
        evaluate_course_set mk
          \<lparr>patterns = [(''MATH'', Some (100, 199))], min_count = 2, min_credits = 0, grade_floor = None\<rparr>
          [\<lparr>subject = ''MATH'', number = 101, credits = c1, grade = g1, term_id = (2020, Fall), repeated = r1\<rparr>,
           \<lparr>subject = ''MATH'', number = 201, credits = c2, grade = g2, term_id = (2021, Winter), repeated = r2\<rparr>,
           \<lparr>subject = ''MATH'', number = 150, credits = c3, grade = g3, term_id = (2021, Fall), repeated = r3\<rparr>]
        = (VCourseSet True
             [\<lparr>subject = ''MATH'', number = 101, credits = c1, grade = g1, term_id = (2020, Fall), repeated = r1\<rparr>,
              \<lparr>subject = ''MATH'', number = 150, credits = c3, grade = g3, term_id = (2021, Fall), repeated = r3\<rparr>]
             2 0,
           [\<lparr>subject = ''MATH'', number = 201, credits = c2, grade = g2, term_id = (2021, Winter), repeated = r2\<rparr>]))"
proof (intro conjI impI)
  let ?ord = "ordered (candidates mk cs pool)"
  obtain k where k: "k \<le> length ?ord"
    "evaluate_course_set mk cs pool =
       (VCourseSet (met (min_count cs) (min_credits cs) (take k ?ord))
          (take k ?ord) (min_count cs) (min_credits cs),
        remove_courses (take k ?ord) pool)"
    "\<forall>j<k. \<not> met (min_count cs) (min_credits cs) (take j ?ord)"
    "met (min_count cs) (min_credits cs) (take k ?ord) \<or> k = length ?ord"
    by (rule evaluate_course_set_chosen)
  have 1: "prefix (take k ?ord) ?ord" by (rule take_is_prefix)
  have 2: "\<forall>q. strict_prefix q (take k ?ord) \<longrightarrow> \<not> met (min_count cs) (min_credits cs) q"
    using k(3) by (auto dest!: strict_prefix_take)
  have 3: "met (min_count cs) (min_credits cs) (take k ?ord) \<or> take k ?ord = ?ord"
    using k(4) by auto
  have 4: "mset (remove_courses (take k ?ord) pool) + mset (take k ?ord) = mset pool"
    by (rule remove_courses_mset [OF chosen_subseteq_pool])
  show "\<exists>chosen pool'.
      evaluate_course_set mk cs pool =
        (VCourseSet (met (min_count cs) (min_credits cs) chosen) chosen (min_count cs) (min_credits cs), pool')
      \<and> prefix chosen ?ord
      \<and> mset ?ord = mset (candidates mk cs pool)
      \<and> sorted_wrt (\<lambda>a b. earlier (term_id a) (term_id b)
                          \<or> (term_id a = term_id b \<and> credits b \<le> credits a)) ?ord
      \<and> (\<forall>q. strict_prefix q chosen \<longrightarrow> \<not> met (min_count cs) (min_credits cs) q)
      \<and> (met (min_count cs) (min_credits cs) chosen \<or> chosen = ?ord)
      \<and> mset pool' + mset chosen = mset pool"
    using k(2) 1 2 3 4 mset_ordered [of "candidates mk cs pool"] ordered_sorted [of "candidates mk cs pool"]
    by blast
next
  assume "0 \<le> c1 \<and> 0 \<le> c3"
  then show "evaluate_course_set mk
          \<lparr>patterns = [(''MATH'', Some (100, 199))], min_count = 2, min_credits = 0, grade_floor = None\<rparr>
          [\<lparr>subject = ''MATH'', number = 101, credits = c1, grade = g1, term_id = (2020, Fall), repeated = r1\<rparr>,
           \<lparr>subject = ''MATH'', number = 201, credits = c2, grade = g2, term_id = (2021, Winter), repeated = r2\<rparr>,
           \<lparr>subject = ''MATH'', number = 150, credits = c3, grade = g3, term_id = (2021, Fall), repeated = r3\<rparr>]
        = (VCourseSet True
             [\<lparr>subject = ''MATH'', number = 101, credits = c1, grade = g1, term_id = (2020, Fall), repeated = r1\<rparr>,
              \<lparr>subject = ''MATH'', number = 150, credits = c3, grade = g3, term_id = (2021, Fall), repeated = r3\<rparr>]
             2 0,
           [\<lparr>subject = ''MATH'', number = 201, credits = c2, grade = g2, term_id = (2021, Winter), repeated = r2\<rparr>])"
    by (simp add: evaluate_course_set_def candidates_def matches_def reaches_floor_def ordered_def
        selection_key_def met_def credits_total_def remove_courses_def)
qed

theorem course_set_allocation_witness:
  "evaluate_course_set (\<lambda>g f. False)
      \<lparr>patterns = [(''MATH'', Some (100, 199))], min_count = 2, min_credits = 0, grade_floor = None\<rparr>
      [\<lparr>subject = ''MATH'', number = 101, credits = 3, grade = GradeB, term_id = (2020, Fall), repeated = False\<rparr>,
       \<lparr>subject = ''MATH'', number = 201, credits = 3, grade = GradeA, term_id = (2021, Winter), repeated = False\<rparr>,
       \<lparr>subject = ''MATH'', number = 150, credits = 4, grade = Pass, term_id = (2021, Fall), repeated = False\<rparr>]
    = (VCourseSet True
         [\<lparr>subject = ''MATH'', number = 101, credits = 3, grade = GradeB, term_id = (2020, Fall), repeated = False\<rparr>,
          \<lparr>subject = ''MATH'', number = 150, credits = 4, grade = Pass, term_id = (2021, Fall), repeated = False\<rparr>]
         2 0,
       [\<lparr>subject = ''MATH'', number = 201, credits = 3, grade = GradeA, term_id = (2021, Winter), repeated = False\<rparr>])"
proof -
  have h: "(0::rat) \<le> 3 \<and> (0::rat) \<le> 4" by simp
  show ?thesis
    using course_set_allocation [where ?c1.0 = 3 and ?c3.0 = 4 and mk = "\<lambda>g f. False"
        and ?g1.0 = GradeB and ?g2.0 = GradeA and ?g3.0 = Pass and ?c2.0 = 3
        and ?r1.0 = False and ?r2.0 = False and ?r3.0 = False] h
    by blast
qed

subsection \<open>The Maximum ceiling\<close>

lemma pop_last_consumed:
  "(case pop_last v of None \<Rightarrow> consumed v = [] | Some (c, v') \<Rightarrow> consumed v = consumed v' @ [c])"
  "(case pop_last_list vs of
      None \<Rightarrow> concat (map consumed vs) = []
    | Some (c, vs') \<Rightarrow> concat (map consumed vs) = concat (map consumed vs') @ [c])"
proof (induction v and vs rule: pop_last_pop_last_list.induct)
  case (1 s ap mc mcr)
  then show ?case by simp
next
  case (2 s m vs)
  then show ?case by (simp split: option.splits prod.splits)
next
  case (3 s v)
  then show ?case by (simp split: option.splits prod.splits)
next
  case (4 s v)
  then show ?case by (simp split: option.splits prod.splits)
next
  case (5 s pol v)
  then show ?case by (cases pol) (simp_all split: option.splits prod.splits)
next
  case 6
  then show ?case by simp
next
  case (7 v vs)
  show ?case
  proof (cases "pop_last_list vs")
    case None
    then have e: "concat (map consumed vs) = []" using 7(1) by simp
    show ?thesis
    proof (cases "pop_last v")
      case n: None
      then show ?thesis using None 7(2) e by simp
    next
      case (Some a)
      then show ?thesis using None 7(2) [OF None] e by (cases a) simp
    qed
  next
    case (Some a)
    then show ?thesis using 7(1) by (cases a) simp
  qed
qed

lemma pop_last_Some: "pop_last v = Some (c, v') \<Longrightarrow> consumed v = consumed v' @ [c]"
  using pop_last_consumed(1) [of v] by simp

lemma pop_last_None: "pop_last v = None \<Longrightarrow> consumed v = []"
  using pop_last_consumed(1) [of v] by simp

lemma release_excess_released:
  "length (consumed v) \<le> n \<Longrightarrow> release_excess n ceil v pool = (v', pool') \<Longrightarrow>
     \<exists>released. consumed v = consumed v' @ rev released
       \<and> pool' = pool @ released
       \<and> (\<not> exceeds ceil (consumed v') \<or> consumed v' = [])
       \<and> (\<forall>i<length released. exceeds ceil (consumed v' @ rev (drop i released)))"
proof (induction n arbitrary: v pool)
  case 0
  then show ?case by (intro exI [of _ "[]"]) simp
next
  case (Suc n)
  show ?case
  proof (cases "exceeds ceil (consumed v)")
    case False
    with Suc.prems show ?thesis by (intro exI [of _ "[]"]) simp
  next
    case True
    show ?thesis
    proof (cases "pop_last v")
      case None
      with True Suc.prems show ?thesis
        by (intro exI [of _ "[]"]) (simp add: pop_last_None)
    next
      case (Some a)
      obtain c w where a: "a = (c, w)" by (cases a)
      have cw: "consumed v = consumed w @ [c]"
        using Some a by (simp add: pop_last_Some)
      then have len: "length (consumed w) \<le> n" using Suc.prems(1) by simp
      have run: "release_excess n ceil w (pool @ [c]) = (v', pool')"
        using Suc.prems(2) True Some a by simp
      from Suc.IH [OF len run] obtain rel where rel:
        "consumed w = consumed v' @ rev rel" "pool' = (pool @ [c]) @ rel"
        "\<not> exceeds ceil (consumed v') \<or> consumed v' = []"
        "\<forall>i<length rel. exceeds ceil (consumed v' @ rev (drop i rel))"
        by blast
      have "\<forall>i<length (c # rel). exceeds ceil (consumed v' @ rev (drop i (c # rel)))"
      proof (intro allI impI)
        fix i assume "i < length (c # rel)"
        then show "exceeds ceil (consumed v' @ rev (drop i (c # rel)))"
          using True cw rel(1) rel(4) by (cases i) auto
      qed
      then show ?thesis
        using cw rel(1-3) by (intro exI [of _ "c # rel"]) simp
    qed
  qed
qed

lemma consumed_recompute: "consumed (recompute v) = consumed v"
proof (induction v)
  case (VGroup s m vs)
  have "concat (map (\<lambda>x. consumed (recompute x)) vs) = concat (map consumed vs)"
    by (rule arg_cong [where f = concat], rule map_cong) (simp_all add: VGroup)
  then show ?case by (simp add: comp_def)
next
  case (VBlockReference s pol v)
  then show ?case by (cases pol) simp_all
qed simp_all

lemma coherent_recompute: "coherent (recompute v)"
  by (induction v) (simp_all add: list_all_iff comp_def)

text \<open>
  C4. After the capping step of \<open>Maximum(child, max_credits)\<close>, with a ceiling that is a
  credit value (non-negative), the credits consumed by the child are at most
  \<open>max_credits\<close>. The courses released are the most recently consumed ones, appended to
  the pool most recent first, each released while the ceiling was still exceeded; and
  every satisfied flag of the child is the one recomputed from the capped allocation.
\<close>

theorem maximum_credit_ceiling:
  assumes "0 \<le> m"
  shows "\<exists>v' released pool'.
           cap_maximum (MaxCredits m) v pool = (VMaximum (satisfied v') v', pool')
         \<and> credits_total (consumed v') \<le> m
         \<and> consumed v = consumed v' @ rev released
         \<and> pool' = pool @ released
         \<and> (\<forall>i<length released. m < credits_total (consumed v' @ rev (drop i released)))
         \<and> coherent v'"
proof -
  obtain w pool' where run: "release_excess (length (consumed v)) (MaxCredits m) v pool = (w, pool')"
    by (cases "release_excess (length (consumed v)) (MaxCredits m) v pool")
  from release_excess_released [OF le_refl run] obtain released where rel:
    "consumed v = consumed w @ rev released" "pool' = pool @ released"
    "\<not> exceeds (MaxCredits m) (consumed w) \<or> consumed w = []"
    "\<forall>i<length released. exceeds (MaxCredits m) (consumed w @ rev (drop i released))"
    by blast
  have bound: "credits_total (consumed w) \<le> m"
    using rel(3) assms by (auto simp: credits_total_def)
  have "cap_maximum (MaxCredits m) v pool
          = (VMaximum (satisfied (recompute w)) (recompute w), pool')"
    by (simp add: cap_maximum_def run)
  then show ?thesis
    using bound rel(1,2,4) coherent_recompute [of w]
    by (intro exI [of _ "recompute w"] exI [of _ released] exI [of _ pool'])
       (simp add: consumed_recompute)
qed

theorem maximum_credit_ceiling_witness:
  "(0::rat) \<le> 5
   \<and> cap_maximum (MaxCredits 5)
        (VCourseSet True
           [\<lparr>subject = ''MATH'', number = 101, credits = 3, grade = GradeB, term_id = (2020, Fall), repeated = False\<rparr>,
            \<lparr>subject = ''MATH'', number = 150, credits = 4, grade = Pass, term_id = (2021, Fall), repeated = False\<rparr>]
           2 7) []
      = (VMaximum False
          (VCourseSet False
            [\<lparr>subject = ''MATH'', number = 101, credits = 3, grade = GradeB, term_id = (2020, Fall), repeated = False\<rparr>]
            2 7),
         [\<lparr>subject = ''MATH'', number = 150, credits = 4, grade = Pass, term_id = (2021, Fall), repeated = False\<rparr>])
   \<and> (\<exists>v' released pool'.
         cap_maximum (MaxCredits 5)
           (VCourseSet True
              [\<lparr>subject = ''MATH'', number = 101, credits = 3, grade = GradeB, term_id = (2020, Fall), repeated = False\<rparr>,
               \<lparr>subject = ''MATH'', number = 150, credits = 4, grade = Pass, term_id = (2021, Fall), repeated = False\<rparr>]
              2 7) []
           = (VMaximum (satisfied v') v', pool')
         \<and> credits_total (consumed v') \<le> 5 \<and> coherent v')"
proof -
  have h: "(0::rat) \<le> 5" by simp
  have e: "cap_maximum (MaxCredits 5)
        (VCourseSet True
           [\<lparr>subject = ''MATH'', number = 101, credits = 3, grade = GradeB, term_id = (2020, Fall), repeated = False\<rparr>,
            \<lparr>subject = ''MATH'', number = 150, credits = 4, grade = Pass, term_id = (2021, Fall), repeated = False\<rparr>]
           2 7) []
      = (VMaximum False
          (VCourseSet False
            [\<lparr>subject = ''MATH'', number = 101, credits = 3, grade = GradeB, term_id = (2020, Fall), repeated = False\<rparr>]
            2 7),
         [\<lparr>subject = ''MATH'', number = 150, credits = 4, grade = Pass, term_id = (2021, Fall), repeated = False\<rparr>])"
    by (simp add: cap_maximum_def credits_total_def met_def)
  show ?thesis
    using maximum_credit_ceiling [OF h, of
        "VCourseSet True
           [\<lparr>subject = ''MATH'', number = 101, credits = 3, grade = GradeB, term_id = (2020, Fall), repeated = False\<rparr>,
            \<lparr>subject = ''MATH'', number = 150, credits = 4, grade = Pass, term_id = (2021, Fall), repeated = False\<rparr>]
           2 7" "[]"] h e
    by blast
qed

end
